theory Spec2Isabelle
  imports Main "HOL-Library.Word"
begin

unbundle bit_operations_syntax

section \<open>The UDP header view of pkg/tcpip/header/udp.go\<close>

subsection \<open>Go byte slices\<close>

type_synonym byte = "8 word"
type_synonym uint16 = "16 word"

text \<open>
  The run-time panics of Go that the operations can raise: those of an index expression
  and of a slice expression, and the dereference of a nil pointer.
\<close>

datatype panic = IndexOutOfRange | SliceBoundsOutOfRange | NilPointerDereference

text \<open>
  A Go slice \<open>[]byte\<close> is a window on a backing array: \<open>elems\<close> holds the bytes at
  the indices \<open>0 ..< len\<close>, \<open>spare\<close> the bytes of the backing array at the indices
  \<open>len ..< cap\<close>, which an index expression cannot reach and a slice expression with
  an upper bound can.
\<close>

record slice =
  elems :: "byte list"
  spare :: "byte list"

definition slice_len :: "slice \<Rightarrow> nat" where
  "slice_len s = length (elems s)"

definition slice_cap :: "slice \<Rightarrow> nat" where
  "slice_cap s = length (elems s) + length (spare s)"

text \<open>\<open>s[lo:]\<close> panics when \<open>lo > len(s)\<close>.\<close>

definition slice_from :: "slice \<Rightarrow> nat \<Rightarrow> panic + slice" where
  "slice_from s lo =
     (if lo \<le> slice_len s then Inr \<lparr>elems = drop lo (elems s), spare = spare s\<rparr>
      else Inl SliceBoundsOutOfRange)"

text \<open>\<open>s[:hi]\<close> panics when \<open>hi > cap(s)\<close>: the upper bound of a slice is its capacity.\<close>

definition slice_to :: "slice \<Rightarrow> nat \<Rightarrow> panic + slice" where
  "slice_to s hi =
     (if hi \<le> slice_cap s
      then Inr \<lparr>elems = take hi (elems s @ spare s), spare = drop hi (elems s @ spare s)\<rparr>
      else Inl SliceBoundsOutOfRange)"

text \<open>\<open>s[i]\<close> panics when \<open>i >= len(s)\<close>.\<close>

definition index_at :: "slice \<Rightarrow> nat \<Rightarrow> panic + byte" where
  "index_at s i = (if i < slice_len s then Inr (elems s ! i) else Inl IndexOutOfRange)"

text \<open>
  \<open>s[lo:]\<close> shares the backing array of \<open>s\<close>. After a write through the sub-slice,
  \<open>s\<close> holds its own first \<open>lo\<close> bytes followed by the bytes of the sub-slice.
\<close>

definition rejoin :: "slice \<Rightarrow> nat \<Rightarrow> slice \<Rightarrow> slice" where
  "rejoin s lo t = \<lparr>elems = take lo (elems s) @ elems t, spare = spare t\<rparr>"

subsection \<open>encoding/binary, BigEndian\<close>

text \<open>
  \<^verbatim>\<open>_ = b[1]; return uint16(b[1]) | uint16(b[0])<<8\<close>
\<close>

definition Uint16 :: "slice \<Rightarrow> panic + uint16" where
  "Uint16 b =
     (case index_at b 1 of
        Inl e \<Rightarrow> Inl e
      | Inr _ \<Rightarrow> Inr (ucast (elems b ! 1) OR push_bit 8 (ucast (elems b ! 0))))"

text \<open>
  \<^verbatim>\<open>_ = b[1]; b[0] = byte(v >> 8); b[1] = byte(v)\<close>
\<close>

definition PutUint16 :: "slice \<Rightarrow> uint16 \<Rightarrow> panic + slice" where
  "PutUint16 b v =
     (case index_at b 1 of
        Inl e \<Rightarrow> Inl e
      | Inr _ \<Rightarrow> Inr (b\<lparr>elems := (elems b)[0 := ucast (drop_bit 8 v), 1 := ucast v]\<rparr>))"

subsection \<open>Constants and types of the header\<close>

definition udpSrcPort :: nat where "udpSrcPort = 0"
definition udpDstPort :: nat where "udpDstPort = 2"
definition udpLength :: nat where "udpLength = 4"
definition udpChecksum :: nat where "udpChecksum = 6"

definition UDPMaximumPacketSize :: nat where "UDPMaximumPacketSize = 0xffff"
definition UDPMinimumSize :: nat where "UDPMinimumSize = 8"
definition UDPMaximumSize :: nat where "UDPMaximumSize = 0xffff"
definition UDPProtocolNumber :: nat where "UDPProtocolNumber = 17"

text \<open>
  The struct \<open>UDPFields\<close>. Its fields \<open>Length\<close> and \<open>Checksum\<close> carry a suffix here,
  the names being those of two methods of \<open>UDP\<close> as well.
\<close>

record UDPFields =
  SrcPort :: uint16
  DstPort :: uint16
  Length_f :: uint16
  Checksum_f :: uint16

text \<open>\<open>type UDP []byte\<close>: every byte slice is a header view, no check is made.\<close>

type_synonym UDP = slice

text \<open>
  Modelled from the spec: \<open>tcpip.NetworkProtocolNumber\<close> and the constants
  \<open>IPv4ProtocolNumber\<close> and \<open>IPv6ProtocolNumber\<close> are declared in other files of the
  package; the spec describes the type as a discriminator distinguishing IPv4 from IPv6.
\<close>

datatype NetworkProtocolNumber = IPv4ProtocolNumber | IPv6ProtocolNumber

text \<open>
  The functions \<open>Checksum\<close> and \<open>PseudoHeaderChecksum\<close> of the package are defined in
  another file. The operations that call them take them as parameters, of these types.
  \<open>buffer.VectorisedView\<close> is read through \<open>Views()\<close> only, as a list of byte spans.
\<close>

type_synonym checksum_fn = "byte list \<Rightarrow> uint16 \<Rightarrow> uint16"
type_synonym 'a pseudo_fn = "nat \<Rightarrow> 'a \<Rightarrow> 'a \<Rightarrow> uint16 \<Rightarrow> uint16"
type_synonym VectorisedView = "byte list list"

subsection \<open>Accessors\<close>

definition SourcePort :: "UDP \<Rightarrow> panic + uint16" where
  "SourcePort b =
     (case slice_from b udpSrcPort of Inl e \<Rightarrow> Inl e | Inr t \<Rightarrow> Uint16 t)"

definition DestinationPort :: "UDP \<Rightarrow> panic + uint16" where
  "DestinationPort b =
     (case slice_from b udpDstPort of Inl e \<Rightarrow> Inl e | Inr t \<Rightarrow> Uint16 t)"

definition Length :: "UDP \<Rightarrow> panic + uint16" where
  "Length b =
     (case slice_from b udpLength of Inl e \<Rightarrow> Inl e | Inr t \<Rightarrow> Uint16 t)"

definition Payload :: "UDP \<Rightarrow> panic + slice" where
  "Payload b = slice_from b UDPMinimumSize"

definition Checksum :: "UDP \<Rightarrow> panic + uint16" where
  "Checksum b =
     (case slice_from b udpChecksum of Inl e \<Rightarrow> Inl e | Inr t \<Rightarrow> Uint16 t)"

subsection \<open>Mutators\<close>

text \<open>
  \<open>binary.BigEndian.PutUint16(b[off:], v)\<close>: the write goes through the sub-slice and
  is seen in \<open>b\<close>.
\<close>

definition put_field :: "UDP \<Rightarrow> nat \<Rightarrow> uint16 \<Rightarrow> panic + UDP" where
  "put_field b off v =
     (case slice_from b off of
        Inl e \<Rightarrow> Inl e
      | Inr t \<Rightarrow> (case PutUint16 t v of
                   Inl e \<Rightarrow> Inl e
                 | Inr t' \<Rightarrow> Inr (rejoin b off t')))"

definition SetSourcePort :: "UDP \<Rightarrow> uint16 \<Rightarrow> panic + UDP" where
  "SetSourcePort b port = put_field b udpSrcPort port"

definition SetDestinationPort :: "UDP \<Rightarrow> uint16 \<Rightarrow> panic + UDP" where
  "SetDestinationPort b port = put_field b udpDstPort port"

definition SetChecksum :: "UDP \<Rightarrow> uint16 \<Rightarrow> panic + UDP" where
  "SetChecksum b checksum = put_field b udpChecksum checksum"

definition SetLength :: "UDP \<Rightarrow> uint16 \<Rightarrow> panic + UDP" where
  "SetLength b length_v = put_field b udpLength length_v"

text \<open>
  \<open>Encode\<close> takes a pointer \<open>u *UDPFields\<close>: \<open>None\<close> is the nil pointer, \<open>Some f\<close> a
  pointer to the fields \<open>f\<close>. The arguments of the first call are evaluated in order:
  \<open>b[udpSrcPort:]\<close>, then \<open>u.SrcPort\<close>, which panics on nil.
\<close>

definition Encode :: "UDP \<Rightarrow> UDPFields option \<Rightarrow> panic + UDP" where
  "Encode b u =
     (case slice_from b udpSrcPort of
        Inl e \<Rightarrow> Inl e
      | Inr _ \<Rightarrow>
     (case u of
        None \<Rightarrow> Inl NilPointerDereference
      | Some f \<Rightarrow>
     (case put_field b udpSrcPort (SrcPort f) of
        Inl e \<Rightarrow> Inl e
      | Inr b1 \<Rightarrow>
     (case put_field b1 udpDstPort (DstPort f) of
        Inl e \<Rightarrow> Inl e
      | Inr b2 \<Rightarrow>
     (case put_field b2 udpLength (Length_f f) of
        Inl e \<Rightarrow> Inl e
      | Inr b3 \<Rightarrow> put_field b3 udpChecksum (Checksum_f f))))))"

subsection \<open>Checksum\<close>

definition CalculateChecksum :: "checksum_fn \<Rightarrow> UDP \<Rightarrow> uint16 \<Rightarrow> panic + uint16" where
  "CalculateChecksum Checksum_fn b partialChecksum =
     (case slice_to b UDPMinimumSize of
        Inl e \<Rightarrow> Inl e
      | Inr h \<Rightarrow> Inr (Checksum_fn (elems h) partialChecksum))"

text \<open>The loop \<open>for _, v := range data.Views() { xsum = Checksum(v, xsum) }\<close>.\<close>

fun checksum_views :: "checksum_fn \<Rightarrow> VectorisedView \<Rightarrow> uint16 \<Rightarrow> uint16" where
  "checksum_views Checksum_fn [] xsum = xsum"
| "checksum_views Checksum_fn (v # vs) xsum =
     checksum_views Checksum_fn vs (Checksum_fn v xsum)"

definition IsChecksumValid ::
  "checksum_fn \<Rightarrow> 'a pseudo_fn \<Rightarrow> UDP \<Rightarrow> 'a \<Rightarrow> 'a \<Rightarrow> NetworkProtocolNumber
     \<Rightarrow> VectorisedView \<Rightarrow> panic + bool" where
  "IsChecksumValid Checksum_fn PseudoHeaderChecksum b src dst netProto data =
     (case Checksum b of
        Inl e \<Rightarrow> Inl e
      | Inr c \<Rightarrow>
          if c = 0 \<and> netProto = IPv4ProtocolNumber then Inr True
          else
            (case Length b of
               Inl e \<Rightarrow> Inl e
             | Inr l \<Rightarrow>
                 (case CalculateChecksum Checksum_fn b
                         (checksum_views Checksum_fn data
                            (PseudoHeaderChecksum UDPProtocolNumber dst src l)) of
                    Inl e \<Rightarrow> Inl e
                  | Inr x \<Rightarrow> Inr (x = 0xffff))))"

subsection \<open>The checksum computation as the spec words it\<close>

text \<open>
  The spec's full computation: the pseudo-header seed of protocol number 17, \<open>dst\<close>,
  \<open>src\<close> and the Length field, then every payload span in sequence order, then the 8
  header bytes.
\<close>

definition spec_full_checksum ::
  "checksum_fn \<Rightarrow> 'a pseudo_fn \<Rightarrow> byte list \<Rightarrow> 'a \<Rightarrow> 'a \<Rightarrow> uint16 \<Rightarrow> VectorisedView
     \<Rightarrow> uint16" where
  "spec_full_checksum Checksum_fn PseudoHeaderChecksum hdr src dst len_field data =
     Checksum_fn hdr
       (foldl (\<lambda>acc span. Checksum_fn span acc)
          (PseudoHeaderChecksum 17 dst src len_field) data)"

text \<open>
  The spec's four mutator calls in sequence: \<open>SetSourcePort\<close>, \<open>SetDestinationPort\<close>,
  \<open>SetLength\<close>, \<open>SetChecksum\<close>.
\<close>

definition four_setters :: "UDP \<Rightarrow> UDPFields \<Rightarrow> panic + UDP" where
  "four_setters b u =
     (case SetSourcePort b (SrcPort u) of Inl e \<Rightarrow> Inl e | Inr b1 \<Rightarrow>
     (case SetDestinationPort b1 (DstPort u) of Inl e \<Rightarrow> Inl e | Inr b2 \<Rightarrow>
     (case SetLength b2 (Length_f u) of Inl e \<Rightarrow> Inl e | Inr b3 \<Rightarrow>
      SetChecksum b3 (Checksum_f u))))"

subsection \<open>Instances of the two external functions\<close>

text \<open>
  Modelled from the spec: the function \<open>Checksum\<close> of the package is defined in another
  file. The spec describes it as the one's-complement running checksum over a byte span,
  16-bit one's-complement addition with end-around carry, composable through the seed.
  The theorems below hold for every function of its type; this instance evaluates them
  at concrete datagrams.
\<close>

definition add_carry :: "uint16 \<Rightarrow> uint16 \<Rightarrow> uint16" where
  "add_carry a b = (let s = unat a + unat b in of_nat (s mod 65536 + s div 65536))"

fun spec_Checksum :: checksum_fn where
  "spec_Checksum [] seed = seed"
| "spec_Checksum [x] seed = add_carry seed (push_bit 8 (ucast x))"
| "spec_Checksum (x # y # r) seed =
     spec_Checksum r (add_carry seed (push_bit 8 (ucast x) OR ucast y))"

text \<open>
  Modelled from the spec: the function \<open>PseudoHeaderChecksum\<close> of the package is defined
  in another file. The spec describes it as the seed contribution of the two network
  addresses, the transport protocol number and the UDP length field. Addresses are byte
  strings here.
\<close>

definition spec_PseudoHeaderChecksum :: "(byte list) pseudo_fn" where
  "spec_PseudoHeaderChecksum protocol addrA addrB totalLen =
     spec_Checksum [0, of_nat protocol]
       (spec_Checksum [ucast (drop_bit 8 totalLen), ucast totalLen]
          (spec_Checksum addrB (spec_Checksum addrA 0)))"

subsection \<open>Vocabulary of the theorems\<close>

text \<open>
  The bytes of a region after \<open>byte(v >> 8)\<close> and \<open>byte(v)\<close> are stored at \<open>off\<close> and
  \<open>off + 1\<close>; lemma \<open>put_field_ok\<close> shows that \<open>put_field\<close> leaves exactly these.
\<close>

definition put_bytes :: "byte list \<Rightarrow> nat \<Rightarrow> uint16 \<Rightarrow> byte list" where
  "put_bytes xs off v = xs[off := ucast (drop_bit 8 v), Suc off := ucast v]"

text \<open>
  Two views agree everywhere but in the 2-byte window at \<open>off\<close>: same length, same spare
  capacity, same bytes before \<open>off\<close> and from \<open>off + 2\<close> on.
\<close>

definition unchanged_outside :: "nat \<Rightarrow> UDP \<Rightarrow> UDP \<Rightarrow> bool" where
  "unchanged_outside off b b' \<longleftrightarrow>
     length (elems b') = length (elems b) \<and> spare b' = spare b \<and>
     take off (elems b') = take off (elems b) \<and>
     drop (off + 2) (elems b') = drop (off + 2) (elems b)"

text \<open>
  The two outcomes of a call: it returns a result, or it ends in one of the two bounds
  panics of the run-time system.
\<close>

definition returns :: "panic + 'a \<Rightarrow> bool" where
  "returns r = (case r of Inl _ \<Rightarrow> False | Inr _ \<Rightarrow> True)"

definition bounds_panic :: "panic + 'a \<Rightarrow> bool" where
  "bounds_panic r =
     (case r of
        Inl IndexOutOfRange \<Rightarrow> True
      | Inl SliceBoundsOutOfRange \<Rightarrow> True
      | Inl NilPointerDereference \<Rightarrow> False
      | Inr _ \<Rightarrow> False)"

lemmas udp_defs =
  slice_len_def slice_cap_def slice_from_def slice_to_def index_at_def rejoin_def
  Uint16_def PutUint16_def udpSrcPort_def udpDstPort_def udpLength_def udpChecksum_def
  UDPMinimumSize_def UDPProtocolNumber_def SourcePort_def DestinationPort_def Length_def
  Payload_def Checksum_def put_field_def SetSourcePort_def SetDestinationPort_def
  SetChecksum_def SetLength_def Encode_def CalculateChecksum_def IsChecksumValid_def

section \<open>Reading and writing a field\<close>

lemma get_field_ok:
  "off + 2 \<le> length (elems b) \<Longrightarrow>
   (case slice_from b off of Inl e \<Rightarrow> Inl e | Inr t \<Rightarrow> Uint16 t) =
     Inr (ucast (elems b ! Suc off) OR push_bit 8 (ucast (elems b ! off)))"
  by (simp add: slice_from_def slice_len_def Uint16_def index_at_def)

lemma get_field_short:
  "length (elems b) < off + 2 \<Longrightarrow>
   \<exists>e. (case slice_from b off of Inl e \<Rightarrow> Inl e | Inr t \<Rightarrow> Uint16 t) = Inl e"
  by (auto simp add: slice_from_def slice_len_def Uint16_def index_at_def)

lemma field_read:
  "(case slice_from b off of Inl e \<Rightarrow> Inl e | Inr t \<Rightarrow> Uint16 t) =
     (if off + 2 \<le> slice_len b
      then Inr (ucast (elems b ! Suc off) OR push_bit 8 (ucast (elems b ! off)))
      else if off \<le> slice_len b then Inl IndexOutOfRange else Inl SliceBoundsOutOfRange)"
  by (auto simp add: slice_from_def slice_len_def Uint16_def index_at_def)

lemma SourcePort_ok:
  "8 \<le> length (elems b) \<Longrightarrow>
   SourcePort b = Inr (ucast (elems b ! 1) OR push_bit 8 (ucast (elems b ! 0)))"
  using get_field_ok [of 0 b] by (simp add: SourcePort_def udpSrcPort_def)

lemma DestinationPort_ok:
  "8 \<le> length (elems b) \<Longrightarrow>
   DestinationPort b = Inr (ucast (elems b ! 3) OR push_bit 8 (ucast (elems b ! 2)))"
  using get_field_ok [of 2 b] by (simp add: DestinationPort_def udpDstPort_def eval_nat_numeral)

lemma Length_ok:
  "8 \<le> length (elems b) \<Longrightarrow>
   Length b = Inr (ucast (elems b ! 5) OR push_bit 8 (ucast (elems b ! 4)))"
  using get_field_ok [of 4 b] by (simp add: Length_def udpLength_def eval_nat_numeral)

lemma Checksum_ok:
  "8 \<le> length (elems b) \<Longrightarrow>
   Checksum b = Inr (ucast (elems b ! 7) OR push_bit 8 (ucast (elems b ! 6)))"
  using get_field_ok [of 6 b] by (simp add: Checksum_def udpChecksum_def eval_nat_numeral)

lemma update_drop:
  "off + 2 \<le> length xs \<Longrightarrow>
   take off xs @ (drop off xs)[0 := h, Suc 0 := l] = xs[off := h, Suc off := l]"
proof (induction off arbitrary: xs)
  case 0
  then show ?case by simp
next
  case (Suc off)
  then show ?case by (cases xs) simp_all
qed

lemma put_field_ok:
  "off + 2 \<le> length (elems b) \<Longrightarrow>
   put_field b off v = Inr (b\<lparr>elems := put_bytes (elems b) off v\<rparr>)"
  by (simp add: put_field_def slice_from_def slice_len_def PutUint16_def index_at_def
      rejoin_def update_drop put_bytes_def)

lemma put_field_short:
  "length (elems b) < off + 2 \<Longrightarrow> \<exists>e. put_field b off v = Inl e"
  by (auto simp add: put_field_def slice_from_def slice_len_def PutUint16_def index_at_def)

lemma length_put_bytes [simp]: "length (put_bytes xs off v) = length xs"
  by (simp add: put_bytes_def)

lemma nth_put_bytes:
  "Suc off < length xs \<Longrightarrow>
   put_bytes xs off v ! i =
     (if i = off then ucast (drop_bit 8 v) else if i = Suc off then ucast v else xs ! i)"
  by (auto simp add: put_bytes_def nth_list_update)

lemma put_bytes_frame:
  "take off (put_bytes xs off v) = take off xs \<and>
   drop (off + 2) (put_bytes xs off v) = drop (off + 2) xs"
  by (simp add: put_bytes_def)

lemma put_field_frame:
  "off + 2 \<le> length (elems b) \<Longrightarrow>
   \<exists>b'. put_field b off v = Inr b' \<and> unchanged_outside off b b'"
  using put_bytes_frame [of off "elems b" v]
  by (simp add: put_field_ok unchanged_outside_def)

lemma Encode_Some:
  "Encode b (Some u) =
     (case put_field b udpSrcPort (SrcPort u) of
        Inl e \<Rightarrow> Inl e
      | Inr b1 \<Rightarrow>
     (case put_field b1 udpDstPort (DstPort u) of
        Inl e \<Rightarrow> Inl e
      | Inr b2 \<Rightarrow>
     (case put_field b2 udpLength (Length_f u) of
        Inl e \<Rightarrow> Inl e
      | Inr b3 \<Rightarrow> put_field b3 udpChecksum (Checksum_f u))))"
  by (simp add: Encode_def slice_from_def udpSrcPort_def)

lemma Encode_None: "Encode b None = Inl NilPointerDereference"
  by (simp add: Encode_def slice_from_def udpSrcPort_def)

lemma Encode_ok:
  "8 \<le> length (elems b) \<Longrightarrow>
   Encode b (Some u) = Inr (b\<lparr>elems :=
      put_bytes (put_bytes (put_bytes (put_bytes (elems b) 0 (SrcPort u)) 2 (DstPort u))
        4 (Length_f u)) 6 (Checksum_f u)\<rparr>)"
  by (simp add: Encode_Some put_field_ok udpSrcPort_def udpDstPort_def udpLength_def
      udpChecksum_def)

section \<open>Bytes and 16-bit values\<close>

lemma word_join:
  "ucast (ucast v :: byte) OR push_bit 8 (ucast (ucast (drop_bit 8 v) :: byte)) = (v::uint16)"
  by (rule bit_eqI) (auto simp add: bit_simps)

lemma unat_lo: "unat (ucast (v::uint16) :: byte) = unat v mod 256"
  by (simp add: unsigned_ucast_eq take_bit_eq_mod)

lemma unat_hi: "unat (ucast (drop_bit 8 (v::uint16)) :: byte) = unat v div 256"
proof -
  have "unat v < 2 ^ 16" using unsigned_less [of v] by simp
  then have "unat v div 256 < 256" by simp
  moreover have "unat (drop_bit 8 v) = unat v div 256"
    by (simp add: drop_bit_eq_div unat_div_distrib)
  moreover have "unat (ucast (drop_bit 8 v) :: byte) = unat (drop_bit 8 v) mod 256"
    by (simp only: unsigned_ucast_eq take_bit_eq_mod) simp
  ultimately show ?thesis by simp
qed

section \<open>The checksum operations\<close>

lemma checksum_views_foldl:
  "checksum_views ck data x = foldl (\<lambda>acc span. ck span acc) x data"
  by (induction data arbitrary: x) simp_all

lemma CalculateChecksum_ok:
  "8 \<le> length (elems b) \<Longrightarrow> CalculateChecksum ck b p = Inr (ck (take 8 (elems b)) p)"
  by (simp add: CalculateChecksum_def slice_to_def slice_cap_def UDPMinimumSize_def)

lemma validation_is_full_sum:
  assumes "8 \<le> length (elems b)" and "Checksum b = Inr c" and "Length b = Inr l"
    and "\<not> (c = 0 \<and> netProto = IPv4ProtocolNumber)"
  shows "IsChecksumValid ck ph b src dst netProto data =
     Inr (spec_full_checksum ck ph (take 8 (elems b)) src dst l data = 0xffff)"
  using assms
  by (auto simp add: IsChecksumValid_def CalculateChecksum_ok checksum_views_foldl
      spec_full_checksum_def UDPProtocolNumber_def)

section \<open>Checksum validation\<close>

text \<open>
  C1. For every backing region of at least 8 bytes, every payload span sequence and every
  pair of addresses: if the stored Checksum field is 0 and the network protocol is IPv4,
  \<open>IsChecksumValid\<close> returns true. No checksum is computed: the result is the same for
  every checksum function and every pseudo-header function.
\<close>

theorem IsChecksumValid_ipv4_zero_checksum:
  "8 \<le> slice_len b \<Longrightarrow> Checksum b = Inr 0 \<Longrightarrow>
   IsChecksumValid Checksum_fn PseudoHeaderChecksum b src dst IPv4ProtocolNumber data =
     Inr True"
  by (simp add: IsChecksumValid_def)

theorem IsChecksumValid_ipv4_zero_checksum_witness:
  "8 \<le> slice_len \<lparr>elems = [0x00, 0x35, 0x04, 0xD2, 0x00, 0x10, 0x00, 0x00], spare = []\<rparr> \<and>
   Checksum \<lparr>elems = [0x00, 0x35, 0x04, 0xD2, 0x00, 0x10, 0x00, 0x00], spare = []\<rparr> = Inr 0 \<and>
   IsChecksumValid spec_Checksum spec_PseudoHeaderChecksum
     \<lparr>elems = [0x00, 0x35, 0x04, 0xD2, 0x00, 0x10, 0x00, 0x00], spare = []\<rparr>
     [10, 0, 0, 1] [10, 0, 0, 2] IPv4ProtocolNumber [[1, 2, 3, 4], [5, 6, 7, 8]] = Inr True"
proof -
  let ?b = "\<lparr>elems = [0x00, 0x35, 0x04, 0xD2, 0x00, 0x10, 0x00, 0x00], spare = []\<rparr>"
  have h1: "8 \<le> slice_len ?b" by (simp add: slice_len_def)
  have h2: "Checksum ?b = Inr 0" by (simp add: udp_defs)
  show ?thesis
    using h1 h2 IsChecksumValid_ipv4_zero_checksum [OF h1 h2, of spec_Checksum
        spec_PseudoHeaderChecksum "[10, 0, 0, 1]" "[10, 0, 0, 2]"
        "[[1, 2, 3, 4], [5, 6, 7, 8]]"]
    by simp
qed



text \<open>
  C3. For every backing region of at least 8 bytes whose stored Checksum field is 0: over
  IPv6 the result of \<open>IsChecksumValid\<close> is the result of the full pseudo-header, payload
  and header computation; the zero value has no special case. At the witness the same
  header that passes over IPv4 is reported invalid over IPv6.
\<close>

theorem IsChecksumValid_ipv6_zero_checksum:
  "8 \<le> slice_len b \<Longrightarrow> Checksum b = Inr 0 \<Longrightarrow>
   \<exists>l. Length b = Inr l \<and>
     IsChecksumValid Checksum_fn PseudoHeaderChecksum b src dst IPv6ProtocolNumber data =
       Inr (spec_full_checksum Checksum_fn PseudoHeaderChecksum (take 8 (elems b))
              src dst l data = 0xffff)"
  using validation_is_full_sum [of b 0 _ IPv6ProtocolNumber Checksum_fn PseudoHeaderChecksum
      src dst data]
  by (simp add: slice_len_def Length_ok)

theorem IsChecksumValid_ipv6_zero_checksum_witness:
  "8 \<le> slice_len \<lparr>elems = [0x00, 0x35, 0x04, 0xD2, 0x00, 0x10, 0x00, 0x00], spare = []\<rparr> \<and>
   Checksum \<lparr>elems = [0x00, 0x35, 0x04, 0xD2, 0x00, 0x10, 0x00, 0x00], spare = []\<rparr> = Inr 0 \<and>
   spec_full_checksum spec_Checksum spec_PseudoHeaderChecksum
     [0x00, 0x35, 0x04, 0xD2, 0x00, 0x10, 0x00, 0x00]
     [10, 0, 0, 1] [10, 0, 0, 2] 16 [[1, 2, 3, 4], [5, 6, 7, 8]] = 0x294F \<and>
   IsChecksumValid spec_Checksum spec_PseudoHeaderChecksum
     \<lparr>elems = [0x00, 0x35, 0x04, 0xD2, 0x00, 0x10, 0x00, 0x00], spare = []\<rparr>
     [10, 0, 0, 1] [10, 0, 0, 2] IPv6ProtocolNumber [[1, 2, 3, 4], [5, 6, 7, 8]] = Inr False"
proof -
  let ?b = "\<lparr>elems = [0x00, 0x35, 0x04, 0xD2, 0x00, 0x10, 0x00, 0x00], spare = []\<rparr>"
  have h1: "8 \<le> slice_len ?b" by (simp add: slice_len_def)
  have h2: "Checksum ?b = Inr 0" by (simp add: udp_defs)
  have l: "Length ?b = Inr 16" by (simp add: udp_defs)
  have s: "spec_full_checksum spec_Checksum spec_PseudoHeaderChecksum
     [0x00, 0x35, 0x04, 0xD2, 0x00, 0x10, 0x00, 0x00]
     [10, 0, 0, 1] [10, 0, 0, 2] 16 [[1, 2, 3, 4], [5, 6, 7, 8]] = 0x294F"
    by (simp add: spec_full_checksum_def spec_PseudoHeaderChecksum_def add_carry_def)
  show ?thesis
    using h1 h2 l s IsChecksumValid_ipv6_zero_checksum [OF h1 h2, of spec_Checksum
        spec_PseudoHeaderChecksum "[10, 0, 0, 1]" "[10, 0, 0, 2]"
        "[[1, 2, 3, 4], [5, 6, 7, 8]]"]
    by simp
qed

text \<open>
  C4. For every backing region of at least 8 bytes and every partial checksum,
  \<open>CalculateChecksum\<close> is the checksum function applied to exactly the first 8 bytes of
  the region, the bytes of the Checksum field among them, seeded with the partial
  checksum. No byte from offset 8 on is read: two regions with the same first 8 bytes
  give the same result.
\<close>

theorem CalculateChecksum_header_bytes:
  "8 \<le> slice_len b \<Longrightarrow>
   CalculateChecksum Checksum_fn b partialChecksum =
     Inr (Checksum_fn (take 8 (elems b)) partialChecksum) \<and>
   length (take 8 (elems b)) = 8 \<and>
   (\<forall>b'. 8 \<le> slice_len b' \<and> take 8 (elems b') = take 8 (elems b) \<longrightarrow>
      CalculateChecksum Checksum_fn b' partialChecksum =
      CalculateChecksum Checksum_fn b partialChecksum)"
  by (simp add: slice_len_def CalculateChecksum_ok)

theorem CalculateChecksum_header_bytes_witness:
  "8 \<le> slice_len
     \<lparr>elems = [0x00, 0x35, 0x04, 0xD2, 0x00, 0x10, 0x12, 0x34, 9, 9, 9, 9], spare = [7]\<rparr> \<and>
   CalculateChecksum spec_Checksum
     \<lparr>elems = [0x00, 0x35, 0x04, 0xD2, 0x00, 0x10, 0x12, 0x34, 9, 9, 9, 9], spare = [7]\<rparr>
     0xFFF0 = Inr 5948 \<and>
   CalculateChecksum spec_Checksum
     \<lparr>elems = [0x00, 0x35, 0x04, 0xD2, 0x00, 0x10, 0x12, 0x34], spare = []\<rparr>
     0xFFF0 = Inr 5948"
proof -
  let ?b = "\<lparr>elems = [0x00, 0x35, 0x04, 0xD2, 0x00, 0x10, 0x12, 0x34, 9, 9, 9, 9],
    spare = [7]\<rparr>"
  let ?b' = "\<lparr>elems = [0x00, 0x35, 0x04, 0xD2, 0x00, 0x10, 0x12, 0x34], spare = []\<rparr>"
  have h1: "8 \<le> slice_len ?b" by (simp add: slice_len_def)
  have h2: "8 \<le> slice_len ?b' \<and> take 8 (elems ?b') = take 8 (elems ?b)"
    by (simp add: slice_len_def)
  have v: "spec_Checksum [0x00, 0x35, 0x04, 0xD2, 0x00, 0x10, 0x12, 0x34] 0xFFF0 = 5948"
    by (simp add: add_carry_def)
  from CalculateChecksum_header_bytes [OF h1, of spec_Checksum "0xFFF0"]
  have a: "CalculateChecksum spec_Checksum ?b 0xFFF0 = Inr 5948"
    and b: "\<forall>b'. 8 \<le> slice_len b' \<and> take 8 (elems b') = take 8 (elems ?b) \<longrightarrow>
      CalculateChecksum spec_Checksum b' 0xFFF0 = CalculateChecksum spec_Checksum ?b 0xFFF0"
    using v by simp_all
  from b h2 have "CalculateChecksum spec_Checksum ?b' 0xFFF0 =
      CalculateChecksum spec_Checksum ?b 0xFFF0"
    by blast
  with a h1 show ?thesis by simp
qed

section \<open>Encoding\<close>

lemma Encode_example:
  "Encode \<lparr>elems = [1, 2, 3, 4, 5, 6, 7, 8, 0xAA, 0xBB], spare = [0xCC]\<rparr>
     (Some \<lparr>SrcPort = 53, DstPort = 1234, Length_f = 16, Checksum_f = 0xD6B0\<rparr>) =
   Inr \<lparr>elems = [0x00, 0x35, 0x04, 0xD2, 0x00, 0x10, 0xD6, 0xB0, 0xAA, 0xBB], spare = [0xCC]\<rparr>"
  by (simp add: udp_defs)

lemma SetLength_example:
  "SetLength \<lparr>elems = [1, 2, 3, 4, 5, 6, 7, 8, 0xAA, 0xBB], spare = [0xCC]\<rparr> 0xBEEF =
   Inr \<lparr>elems = [1, 2, 3, 4, 0xBE, 0xEF, 7, 8, 0xAA, 0xBB], spare = [0xCC]\<rparr>"
  by (simp add: udp_defs)

text \<open>
  C7. For every field tuple (each component a 16-bit value, so in the range 0 to 65535)
  and every backing region of at least 8 bytes, \<open>Encode\<close> succeeds and \<open>SourcePort\<close>,
  \<open>DestinationPort\<close>, \<open>Length\<close> and \<open>Checksum\<close> on the encoded region return exactly the
  four components.
\<close>

theorem Encode_roundtrip: "8 \<le> slice_len b \<Longrightarrow>
  \<exists>b'. Encode b (Some u) = Inr b' \<and> SourcePort b' = Inr (SrcPort u) \<and>
        DestinationPort b' = Inr (DstPort u) \<and> Length b' = Inr (Length_f u) \<and>
        Checksum b' = Inr (Checksum_f u)"
  by (simp add: slice_len_def Encode_ok SourcePort_ok DestinationPort_ok Length_ok Checksum_ok
      nth_put_bytes word_join)

theorem Encode_roundtrip_witness:
  "8 \<le> slice_len \<lparr>elems = [1, 2, 3, 4, 5, 6, 7, 8, 0xAA, 0xBB], spare = [0xCC]\<rparr> \<and>
   Encode \<lparr>elems = [1, 2, 3, 4, 5, 6, 7, 8, 0xAA, 0xBB], spare = [0xCC]\<rparr>
     (Some \<lparr>SrcPort = 53, DstPort = 1234, Length_f = 16, Checksum_f = 0xD6B0\<rparr>) =
   Inr \<lparr>elems = [0x00, 0x35, 0x04, 0xD2, 0x00, 0x10, 0xD6, 0xB0, 0xAA, 0xBB], spare = [0xCC]\<rparr> \<and>
   SourcePort \<lparr>elems = [0x00, 0x35, 0x04, 0xD2, 0x00, 0x10, 0xD6, 0xB0, 0xAA, 0xBB],
     spare = [0xCC]\<rparr> = Inr 53 \<and>
   DestinationPort \<lparr>elems = [0x00, 0x35, 0x04, 0xD2, 0x00, 0x10, 0xD6, 0xB0, 0xAA, 0xBB],
     spare = [0xCC]\<rparr> = Inr 1234 \<and>
   Length \<lparr>elems = [0x00, 0x35, 0x04, 0xD2, 0x00, 0x10, 0xD6, 0xB0, 0xAA, 0xBB],
     spare = [0xCC]\<rparr> = Inr 16 \<and>
   Checksum \<lparr>elems = [0x00, 0x35, 0x04, 0xD2, 0x00, 0x10, 0xD6, 0xB0, 0xAA, 0xBB],
     spare = [0xCC]\<rparr> = Inr 0xD6B0"
proof -
  let ?b = "\<lparr>elems = [1, 2, 3, 4, 5, 6, 7, 8, 0xAA, 0xBB], spare = [0xCC]\<rparr>"
  let ?u = "\<lparr>SrcPort = 53, DstPort = 1234, Length_f = 16, Checksum_f = 0xD6B0\<rparr>"
  have h: "8 \<le> slice_len ?b" by (simp add: slice_len_def)
  from Encode_roundtrip [OF h, of ?u] h show ?thesis
    by (simp add: Encode_example)
qed

text \<open>
  C9. For every \<open>UDPFields\<close> value and every backing region of at least 8 bytes,
  \<open>Encode\<close> leaves the region in exactly the state that \<open>SetSourcePort\<close>,
  \<open>SetDestinationPort\<close>, \<open>SetLength\<close> and \<open>SetChecksum\<close> called in sequence leave it in.
\<close>

theorem Encode_eq_setters: "8 \<le> slice_len b \<Longrightarrow>
  \<exists>b'. Encode b (Some u) = Inr b' \<and> four_setters b u = Inr b'"
  by (simp add: slice_len_def Encode_ok four_setters_def SetSourcePort_def SetDestinationPort_def
      SetLength_def SetChecksum_def put_field_ok udpSrcPort_def udpDstPort_def udpLength_def
      udpChecksum_def)

theorem Encode_eq_setters_witness:
  "8 \<le> slice_len \<lparr>elems = [1, 2, 3, 4, 5, 6, 7, 8, 0xAA, 0xBB], spare = [0xCC]\<rparr> \<and>
   Encode \<lparr>elems = [1, 2, 3, 4, 5, 6, 7, 8, 0xAA, 0xBB], spare = [0xCC]\<rparr>
     (Some \<lparr>SrcPort = 53, DstPort = 1234, Length_f = 16, Checksum_f = 0xD6B0\<rparr>) =
   Inr \<lparr>elems = [0x00, 0x35, 0x04, 0xD2, 0x00, 0x10, 0xD6, 0xB0, 0xAA, 0xBB], spare = [0xCC]\<rparr> \<and>
   four_setters \<lparr>elems = [1, 2, 3, 4, 5, 6, 7, 8, 0xAA, 0xBB], spare = [0xCC]\<rparr>
     \<lparr>SrcPort = 53, DstPort = 1234, Length_f = 16, Checksum_f = 0xD6B0\<rparr> =
   Inr \<lparr>elems = [0x00, 0x35, 0x04, 0xD2, 0x00, 0x10, 0xD6, 0xB0, 0xAA, 0xBB], spare = [0xCC]\<rparr>"
proof -
  let ?b = "\<lparr>elems = [1, 2, 3, 4, 5, 6, 7, 8, 0xAA, 0xBB], spare = [0xCC]\<rparr>"
  let ?u = "\<lparr>SrcPort = 53, DstPort = 1234, Length_f = 16, Checksum_f = 0xD6B0\<rparr>"
  have h: "8 \<le> slice_len ?b" by (simp add: slice_len_def)
  from Encode_eq_setters [OF h, of ?u] h show ?thesis
    by (simp add: Encode_example)
qed

text \<open>
  C10. Each single-field mutator changes only its own 2-byte field: on a backing region
  of at least 8 bytes, after \<open>SetSourcePort\<close>, \<open>SetDestinationPort\<close>, \<open>SetLength\<close> or
  \<open>SetChecksum\<close> every byte outside the field's window (the other three fields and the
  payload from offset 8 on) is unchanged, and so are the length and the spare capacity.
\<close>

theorem setters_frame: "8 \<le> slice_len b \<Longrightarrow>
  (\<exists>b'. SetSourcePort b v = Inr b' \<and> unchanged_outside 0 b b') \<and>
  (\<exists>b'. SetDestinationPort b v = Inr b' \<and> unchanged_outside 2 b b') \<and>
  (\<exists>b'. SetLength b v = Inr b' \<and> unchanged_outside 4 b b') \<and>
  (\<exists>b'. SetChecksum b v = Inr b' \<and> unchanged_outside 6 b b')"
  using put_field_frame [of 0 b v] put_field_frame [of 2 b v] put_field_frame [of 4 b v]
    put_field_frame [of 6 b v]
  by (simp add: slice_len_def SetSourcePort_def SetDestinationPort_def
      SetLength_def SetChecksum_def udpSrcPort_def udpDstPort_def udpLength_def
      udpChecksum_def)

theorem setters_frame_witness:
  "8 \<le> slice_len \<lparr>elems = [1, 2, 3, 4, 5, 6, 7, 8, 0xAA, 0xBB], spare = [0xCC]\<rparr> \<and>
   SetLength \<lparr>elems = [1, 2, 3, 4, 5, 6, 7, 8, 0xAA, 0xBB], spare = [0xCC]\<rparr> 0xBEEF =
     Inr \<lparr>elems = [1, 2, 3, 4, 0xBE, 0xEF, 7, 8, 0xAA, 0xBB], spare = [0xCC]\<rparr> \<and>
   unchanged_outside 4 \<lparr>elems = [1, 2, 3, 4, 5, 6, 7, 8, 0xAA, 0xBB], spare = [0xCC]\<rparr>
     \<lparr>elems = [1, 2, 3, 4, 0xBE, 0xEF, 7, 8, 0xAA, 0xBB], spare = [0xCC]\<rparr>"
proof -
  let ?b = "\<lparr>elems = [1, 2, 3, 4, 5, 6, 7, 8, 0xAA, 0xBB], spare = [0xCC]\<rparr>"
  have h: "8 \<le> slice_len ?b" by (simp add: slice_len_def)
  from setters_frame [OF h, of "0xBEEF"] h show ?thesis
    by (simp add: SetLength_example)
qed

section \<open>Byte order\<close>

lemma put_field_msb:
  "off + 2 \<le> length (elems b) \<Longrightarrow>
   \<exists>b'. put_field b off v = Inr b' \<and> unat (elems b' ! off) = unat v div 256 \<and>
        unat (elems b' ! Suc off) = unat v mod 256"
proof -
  assume len: "off + 2 \<le> length (elems b)"
  then have hi: "put_bytes (elems b) off v ! off = ucast (drop_bit 8 v)"
    and lo: "put_bytes (elems b) off v ! Suc off = ucast v"
    by (simp_all add: nth_put_bytes)
  have "unat (put_bytes (elems b) off v ! off) = unat v div 256"
    by (simp only: hi unat_hi)
  moreover have "unat (put_bytes (elems b) off v ! Suc off) = unat v mod 256"
    by (simp only: lo unat_lo)
  ultimately show ?thesis using len by (simp add: put_field_ok)
qed

lemma take8:
  "8 \<le> length xs \<Longrightarrow>
   take 8 xs = [xs ! 0, xs ! 1, xs ! 2, xs ! 3, xs ! 4, xs ! 5, xs ! 6, xs ! 7]"
  by (simp add: list_eq_iff_nth_eq nth_Cons' eval_nat_numeral less_Suc_eq)

lemma Encode_bytes:
  "8 \<le> length (elems b) \<Longrightarrow>
   \<exists>b'. Encode b (Some u) = Inr b' \<and>
        take 8 (elems b') =
          [ucast (drop_bit 8 (SrcPort u)), ucast (SrcPort u),
           ucast (drop_bit 8 (DstPort u)), ucast (DstPort u),
           ucast (drop_bit 8 (Length_f u)), ucast (Length_f u),
           ucast (drop_bit 8 (Checksum_f u)), ucast (Checksum_f u)]"
  by (simp add: Encode_ok take8 nth_put_bytes)

text \<open>
  C8. Storing the source port \<open>0x1234\<close>, with \<open>SetSourcePort\<close> or with \<open>Encode\<close>, puts
  the byte \<open>0x12\<close> at offset 0 and \<open>0x34\<close> at offset 1. In general every 2-byte field is
  stored most significant byte first at its fixed offset: Source Port at 0, Destination
  Port at 2, Length at 4, Checksum at 6.
\<close>

theorem big_endian_layout: "8 \<le> slice_len b \<Longrightarrow>
  (\<exists>b'. SetSourcePort b 0x1234 = Inr b' \<and> elems b' ! 0 = 0x12 \<and> elems b' ! 1 = 0x34) \<and>
  (\<exists>b'. Encode b (Some (u\<lparr>SrcPort := 0x1234\<rparr>)) = Inr b' \<and>
        elems b' ! 0 = 0x12 \<and> elems b' ! 1 = 0x34) \<and>
  (\<exists>b'. SetSourcePort b v = Inr b' \<and>
        unat (elems b' ! 0) = unat v div 256 \<and> unat (elems b' ! 1) = unat v mod 256) \<and>
  (\<exists>b'. SetDestinationPort b v = Inr b' \<and>
        unat (elems b' ! 2) = unat v div 256 \<and> unat (elems b' ! 3) = unat v mod 256) \<and>
  (\<exists>b'. SetLength b v = Inr b' \<and>
        unat (elems b' ! 4) = unat v div 256 \<and> unat (elems b' ! 5) = unat v mod 256) \<and>
  (\<exists>b'. SetChecksum b v = Inr b' \<and>
        unat (elems b' ! 6) = unat v div 256 \<and> unat (elems b' ! 7) = unat v mod 256) \<and>
  (\<exists>b'. Encode b (Some u) = Inr b' \<and>
        map unat (take 8 (elems b')) =
          [unat (SrcPort u) div 256, unat (SrcPort u) mod 256,
           unat (DstPort u) div 256, unat (DstPort u) mod 256,
           unat (Length_f u) div 256, unat (Length_f u) mod 256,
           unat (Checksum_f u) div 256, unat (Checksum_f u) mod 256])"
proof -
  assume full: "8 \<le> slice_len b"
  then have len: "8 \<le> length (elems b)" by (simp add: slice_len_def)
  have a: "\<exists>b'. SetSourcePort b 0x1234 = Inr b' \<and> elems b' ! 0 = 0x12 \<and> elems b' ! 1 = 0x34"
    using len by (simp add: SetSourcePort_def udpSrcPort_def put_field_ok nth_put_bytes)
  have b: "\<exists>b'. Encode b (Some (u\<lparr>SrcPort := 0x1234\<rparr>)) = Inr b' \<and>
      elems b' ! 0 = 0x12 \<and> elems b' ! 1 = 0x34"
    using len by (simp add: Encode_ok nth_put_bytes)
  have c: "\<exists>b'. SetSourcePort b v = Inr b' \<and>
        unat (elems b' ! 0) = unat v div 256 \<and> unat (elems b' ! 1) = unat v mod 256"
    using len put_field_msb [of 0 b v] by (simp add: SetSourcePort_def udpSrcPort_def)
  have d: "\<exists>b'. SetDestinationPort b v = Inr b' \<and>
        unat (elems b' ! 2) = unat v div 256 \<and> unat (elems b' ! 3) = unat v mod 256"
    using len put_field_msb [of 2 b v]
    by (simp add: SetDestinationPort_def udpDstPort_def)
  have e: "\<exists>b'. SetLength b v = Inr b' \<and>
        unat (elems b' ! 4) = unat v div 256 \<and> unat (elems b' ! 5) = unat v mod 256"
    using len put_field_msb [of 4 b v]
    by (simp add: SetLength_def udpLength_def)
  have f: "\<exists>b'. SetChecksum b v = Inr b' \<and>
        unat (elems b' ! 6) = unat v div 256 \<and> unat (elems b' ! 7) = unat v mod 256"
    using len put_field_msb [of 6 b v]
    by (simp add: SetChecksum_def udpChecksum_def)
  from Encode_bytes [OF len, of u] obtain b' where enc: "Encode b (Some u) = Inr b'"
    and bytes: "take 8 (elems b') =
          [ucast (drop_bit 8 (SrcPort u)), ucast (SrcPort u),
           ucast (drop_bit 8 (DstPort u)), ucast (DstPort u),
           ucast (drop_bit 8 (Length_f u)), ucast (Length_f u),
           ucast (drop_bit 8 (Checksum_f u)), ucast (Checksum_f u)]"
    by blast
  have m: "map unat (take 8 (elems b')) =
          [unat (SrcPort u) div 256, unat (SrcPort u) mod 256,
           unat (DstPort u) div 256, unat (DstPort u) mod 256,
           unat (Length_f u) div 256, unat (Length_f u) mod 256,
           unat (Checksum_f u) div 256, unat (Checksum_f u) mod 256]"
    unfolding bytes list.map unat_hi by (simp only: unat_lo)
  have g: "\<exists>b'. Encode b (Some u) = Inr b' \<and>
        map unat (take 8 (elems b')) =
          [unat (SrcPort u) div 256, unat (SrcPort u) mod 256,
           unat (DstPort u) div 256, unat (DstPort u) mod 256,
           unat (Length_f u) div 256, unat (Length_f u) mod 256,
           unat (Checksum_f u) div 256, unat (Checksum_f u) mod 256]"
    by (intro exI [of _ b'] conjI) (rule enc, rule m)
  show ?thesis by (intro conjI) (rule a b c d e f g)+
qed

theorem big_endian_layout_witness:
  "8 \<le> slice_len \<lparr>elems = [1, 2, 3, 4, 5, 6, 7, 8, 0xAA, 0xBB], spare = [0xCC]\<rparr> \<and>
   SetSourcePort \<lparr>elems = [1, 2, 3, 4, 5, 6, 7, 8, 0xAA, 0xBB], spare = [0xCC]\<rparr> 0x1234 =
     Inr \<lparr>elems = [0x12, 0x34, 3, 4, 5, 6, 7, 8, 0xAA, 0xBB], spare = [0xCC]\<rparr> \<and>
   unat (0x12 :: byte) = unat (0x1234 :: uint16) div 256 \<and>
   unat (0x34 :: byte) = unat (0x1234 :: uint16) mod 256"
proof -
  let ?b = "\<lparr>elems = [1, 2, 3, 4, 5, 6, 7, 8, 0xAA, 0xBB], spare = [0xCC]\<rparr>"
  have h: "8 \<le> slice_len ?b" by (simp add: slice_len_def)
  have s: "SetSourcePort ?b 0x1234 =
     Inr \<lparr>elems = [0x12, 0x34, 3, 4, 5, 6, 7, 8, 0xAA, 0xBB], spare = [0xCC]\<rparr>"
    by (simp add: udp_defs)
  from big_endian_layout [OF h,
      of "\<lparr>SrcPort = 53, DstPort = 1234, Length_f = 16, Checksum_f = 0xD6B0\<rparr>" "0x1234"] h s show ?thesis
    by simp
qed

section \<open>Undersized regions\<close>

lemma IsChecksumValid_ok:
  "8 \<le> length (elems b) \<Longrightarrow> \<exists>r. IsChecksumValid ck ph b src dst np data = Inr r"
  by (auto simp add: IsChecksumValid_def Checksum_ok Length_ok CalculateChecksum_ok)

lemma Encode_short:
  assumes "length (elems b) < 8"
  shows "\<exists>e. Encode b (Some u) = Inl e"
proof (cases "put_field b udpSrcPort (SrcPort u)")
  case (Inl e)
  then show ?thesis by (simp add: Encode_Some)
next
  case b1: (Inr b1)
  show ?thesis
  proof (cases "put_field b1 udpDstPort (DstPort u)")
    case (Inl e)
    with b1 show ?thesis by (simp add: Encode_Some)
  next
    case b2: (Inr b2)
    show ?thesis
    proof (cases "put_field b2 udpLength (Length_f u)")
      case (Inl e)
      with b1 b2 show ?thesis by (simp add: Encode_Some)
    next
      case b3: (Inr b3)
      have l1: "length (elems b1) = length (elems b)"
        using b1 put_field_short [of b 0 "SrcPort u"] put_field_ok [of 0 b "SrcPort u"]
        by (cases "2 \<le> length (elems b)") (auto simp add: udpSrcPort_def)
      have l2: "length (elems b2) = length (elems b1)"
        using b2 put_field_short [of b1 2 "DstPort u"] put_field_ok [of 2 b1 "DstPort u"]
        by (cases "4 \<le> length (elems b1)") (auto simp add: udpDstPort_def)
      have l3: "length (elems b3) = length (elems b2)"
        using b3 put_field_short [of b2 4 "Length_f u"] put_field_ok [of 4 b2 "Length_f u"]
        by (cases "6 \<le> length (elems b2)") (auto simp add: udpLength_def)
      from l1 l2 l3 assms have "length (elems b3) < 6 + 2" by simp
      from put_field_short [OF this, of "Checksum_f u"] b1 b2 b3 show ?thesis
        by (simp add: Encode_Some udpChecksum_def)
    qed
  qed
qed




text \<open>
  C6 as stated fails: on a 7-byte region \<open>Checksum\<close> ends in the run-time panic
  "index out of range".
\<close>

theorem Checksum_undersized_counterexample:
  "Checksum \<lparr>elems = [0x00, 0x35, 0x04, 0xD2, 0x00, 0x0F, 0x00], spare = []\<rparr> =
     Inl IndexOutOfRange"
  by (simp add: udp_defs)

lemma field_read_outcome:
  "(if off + 2 \<le> slice_len b
    then returns (case slice_from b off of Inl e \<Rightarrow> Inl e | Inr t \<Rightarrow> Uint16 t)
    else bounds_panic (case slice_from b off of Inl e \<Rightarrow> Inl e | Inr t \<Rightarrow> Uint16 t))"
  by (simp add: field_read returns_def bounds_panic_def)

lemma put_field_exact:
  "put_field b off v =
     (if off + 2 \<le> slice_len b then Inr (b\<lparr>elems := put_bytes (elems b) off v\<rparr>)
      else if off \<le> slice_len b then Inl IndexOutOfRange else Inl SliceBoundsOutOfRange)"
proof (cases "off + 2 \<le> slice_len b")
  case True
  then show ?thesis by (simp add: put_field_ok slice_len_def)
next
  case False
  then show ?thesis
    by (auto simp add: put_field_def slice_from_def slice_len_def PutUint16_def index_at_def)
qed

lemma put_field_outcome:
  "(if off + 2 \<le> slice_len b then returns (put_field b off v)
    else bounds_panic (put_field b off v))"
  by (simp add: put_field_exact returns_def bounds_panic_def)

lemma put_field_panic:
  "put_field b off v = Inl e \<Longrightarrow> e = IndexOutOfRange \<or> e = SliceBoundsOutOfRange"
  by (auto simp add: put_field_exact split: if_splits)

lemma Encode_Some_panic:
  "Encode b (Some u) = Inl e \<Longrightarrow> e = IndexOutOfRange \<or> e = SliceBoundsOutOfRange"
  by (auto simp add: Encode_Some split: sum.splits dest: put_field_panic)

lemma Encode_outcome:
  "(if 8 \<le> slice_len b then returns (Encode b (Some u))
    else bounds_panic (Encode b (Some u)))"
proof (cases "8 \<le> slice_len b")
  case True
  then show ?thesis by (simp add: Encode_ok slice_len_def returns_def)
next
  case False
  then have "length (elems b) < 8" by (simp add: slice_len_def)
  from Encode_short [OF this, of u] obtain e where e: "Encode b (Some u) = Inl e" by blast
  from Encode_Some_panic [OF e] e False show ?thesis
    by (auto simp add: bounds_panic_def)
qed

lemma Payload_exact:
  "Payload b =
     (if 8 \<le> slice_len b then Inr \<lparr>elems = drop 8 (elems b), spare = spare b\<rparr>
      else Inl SliceBoundsOutOfRange)"
  by (simp add: Payload_def slice_from_def UDPMinimumSize_def)

lemma CalculateChecksum_exact:
  "CalculateChecksum ck b p =
     (if 8 \<le> slice_cap b then Inr (ck (take 8 (elems b @ spare b)) p)
      else Inl SliceBoundsOutOfRange)"
  by (simp add: CalculateChecksum_def slice_to_def UDPMinimumSize_def)

lemma IsChecksumValid_outcome:
  "(if 8 \<le> slice_len b then returns (IsChecksumValid ck ph b src dst np data)
    else bounds_panic (IsChecksumValid ck ph b src dst np data))"
proof (cases "8 \<le> slice_len b")
  case True
  then have "8 \<le> length (elems b)" by (simp add: slice_len_def)
  from IsChecksumValid_ok [OF this, of ck ph src dst np data] True show ?thesis
    by (auto simp add: returns_def)
next
  case False
  with field_read [of b 6] have "Checksum b = Inl IndexOutOfRange \<or>
      Checksum b = Inl SliceBoundsOutOfRange"
    by (simp add: Checksum_def udpChecksum_def)
  with False show ?thesis
    by (auto simp add: IsChecksumValid_def bounds_panic_def)
qed

text \<open>
  C6, amended. Every operation returns its result exactly when the region covers what
  the operation touches, and ends in a run-time panic otherwise, never in a returned
  error. \<open>SourcePort\<close> and \<open>SetSourcePort\<close> need 2 bytes, \<open>DestinationPort\<close> and
  \<open>SetDestinationPort\<close> 4, \<open>Length\<close> and \<open>SetLength\<close> 6, \<open>Checksum\<close>, \<open>SetChecksum\<close>,
  \<open>Payload\<close>, \<open>Encode\<close> of a non-nil pointer and \<open>IsChecksumValid\<close> 8; on a shorter
  region they end in a bounds panic. \<open>Encode\<close> of the nil pointer ends in the nil
  dereference panic on every region. \<open>CalculateChecksum\<close> ends in a bounds panic exactly
  when the capacity is below 8; with a capacity of at least 8 it returns the checksum of
  the first 8 bytes of the backing array, also when the region is shorter and some of
  these bytes lie past its length.
\<close>

theorem operation_outcomes:
  "(if 2 \<le> slice_len b then returns (SourcePort b) else bounds_panic (SourcePort b)) \<and>
   (if 4 \<le> slice_len b then returns (DestinationPort b)
    else bounds_panic (DestinationPort b)) \<and>
   (if 6 \<le> slice_len b then returns (Length b) else bounds_panic (Length b)) \<and>
   (if 8 \<le> slice_len b then returns (Checksum b) else bounds_panic (Checksum b)) \<and>
   (if 8 \<le> slice_len b then returns (Payload b) else bounds_panic (Payload b)) \<and>
   (if 2 \<le> slice_len b then returns (SetSourcePort b v)
    else bounds_panic (SetSourcePort b v)) \<and>
   (if 4 \<le> slice_len b then returns (SetDestinationPort b v)
    else bounds_panic (SetDestinationPort b v)) \<and>
   (if 6 \<le> slice_len b then returns (SetLength b v) else bounds_panic (SetLength b v)) \<and>
   (if 8 \<le> slice_len b then returns (SetChecksum b v)
    else bounds_panic (SetChecksum b v)) \<and>
   (if 8 \<le> slice_len b then returns (Encode b (Some f))
    else bounds_panic (Encode b (Some f))) \<and>
   Encode b None = Inl NilPointerDereference \<and>
   CalculateChecksum Checksum_fn b partialChecksum =
     (if 8 \<le> slice_cap b
      then Inr (Checksum_fn (take 8 (elems b @ spare b)) partialChecksum)
      else Inl SliceBoundsOutOfRange) \<and>
   (if 8 \<le> slice_len b
    then returns (IsChecksumValid Checksum_fn PseudoHeaderChecksum b src dst netProto data)
    else bounds_panic
           (IsChecksumValid Checksum_fn PseudoHeaderChecksum b src dst netProto data))"
proof -
  have reads:
    "if 2 \<le> slice_len b then returns (SourcePort b) else bounds_panic (SourcePort b)"
    "if 4 \<le> slice_len b then returns (DestinationPort b)
     else bounds_panic (DestinationPort b)"
    "if 6 \<le> slice_len b then returns (Length b) else bounds_panic (Length b)"
    "if 8 \<le> slice_len b then returns (Checksum b) else bounds_panic (Checksum b)"
    using field_read_outcome [of 0 b] field_read_outcome [of 2 b] field_read_outcome [of 4 b]
      field_read_outcome [of 6 b]
    by (simp_all add: SourcePort_def DestinationPort_def Length_def Checksum_def
        udpSrcPort_def udpDstPort_def udpLength_def udpChecksum_def)
  have payload: "if 8 \<le> slice_len b then returns (Payload b) else bounds_panic (Payload b)"
    by (simp add: Payload_exact returns_def bounds_panic_def)
  have writes:
    "if 2 \<le> slice_len b then returns (SetSourcePort b v)
     else bounds_panic (SetSourcePort b v)"
    "if 4 \<le> slice_len b then returns (SetDestinationPort b v)
     else bounds_panic (SetDestinationPort b v)"
    "if 6 \<le> slice_len b then returns (SetLength b v) else bounds_panic (SetLength b v)"
    "if 8 \<le> slice_len b then returns (SetChecksum b v)
     else bounds_panic (SetChecksum b v)"
    using put_field_outcome [of 0 b v] put_field_outcome [of 2 b v]
      put_field_outcome [of 4 b v] put_field_outcome [of 6 b v]
    by (simp_all add: SetSourcePort_def SetDestinationPort_def SetLength_def SetChecksum_def
        udpSrcPort_def udpDstPort_def udpLength_def udpChecksum_def)
  show ?thesis
    by (intro conjI reads payload writes Encode_outcome Encode_None CalculateChecksum_exact
        IsChecksumValid_outcome)
qed

theorem operation_outcomes_witness:
  "slice_len \<lparr>elems = [0x00, 0x35, 0x04, 0xD2, 0x00, 0x0F, 0x00], spare = [0x99]\<rparr> = 7 \<and>
   slice_cap \<lparr>elems = [0x00, 0x35, 0x04, 0xD2, 0x00, 0x0F, 0x00], spare = [0x99]\<rparr> = 8 \<and>
   returns (SourcePort \<lparr>elems = [0x00, 0x35, 0x04, 0xD2, 0x00, 0x0F, 0x00], spare = [0x99]\<rparr>) \<and>
   returns (SetLength \<lparr>elems = [0x00, 0x35, 0x04, 0xD2, 0x00, 0x0F, 0x00], spare = [0x99]\<rparr> 1) \<and>
   bounds_panic (Checksum \<lparr>elems = [0x00, 0x35, 0x04, 0xD2, 0x00, 0x0F, 0x00], spare = [0x99]\<rparr>) \<and>
   bounds_panic (SetChecksum \<lparr>elems = [0x00, 0x35, 0x04, 0xD2, 0x00, 0x0F, 0x00], spare = [0x99]\<rparr> 1) \<and>
   bounds_panic (Encode \<lparr>elems = [0x00, 0x35, 0x04, 0xD2, 0x00, 0x0F, 0x00], spare = [0x99]\<rparr>
     (Some \<lparr>SrcPort = 53, DstPort = 1234, Length_f = 16, Checksum_f = 0xD6B0\<rparr>)) \<and>
   Encode \<lparr>elems = [0x00, 0x35, 0x04, 0xD2, 0x00, 0x0F, 0x00], spare = [0x99]\<rparr> None =
     Inl NilPointerDereference \<and>
   CalculateChecksum spec_Checksum \<lparr>elems = [0x00, 0x35, 0x04, 0xD2, 0x00, 0x0F, 0x00], spare = [0x99]\<rparr> 0 =
     Inr (spec_Checksum [0x00, 0x35, 0x04, 0xD2, 0x00, 0x0F, 0x00, 0x99] 0) \<and>
   bounds_panic (IsChecksumValid spec_Checksum spec_PseudoHeaderChecksum
     \<lparr>elems = [0x00, 0x35, 0x04, 0xD2, 0x00, 0x0F, 0x00], spare = [0x99]\<rparr>
     [10, 0, 0, 1] [10, 0, 0, 2] IPv4ProtocolNumber [])"
proof -
  let ?s = "\<lparr>elems = [0x00, 0x35, 0x04, 0xD2, 0x00, 0x0F, 0x00], spare = [0x99]\<rparr>"
  have l: "slice_len ?s = 7" and c: "slice_cap ?s = 8"
    by (simp_all add: slice_len_def slice_cap_def)
  from operation_outcomes [of ?s 1
      "\<lparr>SrcPort = 53, DstPort = 1234, Length_f = 16, Checksum_f = 0xD6B0\<rparr>"
      spec_Checksum 0 spec_PseudoHeaderChecksum "[10, 0, 0, 1]" "[10, 0, 0, 2]"
      IPv4ProtocolNumber "[]"]
  show ?thesis
    unfolding l c by simp
qed

end
